theory Spec2Isabelle
  imports Main
begin

section \<open>Python values and exceptions\<close>

text \<open>
  The exceptions the modelled methods can raise. A method that can raise returns
  \<open>error + 'a\<close>, with \<open>Inl\<close> for the exception.
\<close>

datatype error = NotImplementedError | StopIteration | KeyError | IndexError | AttributeError

text \<open>
  The methods of \<^verbatim>\<open>matches.py\<close> return whatever Python's \<^verbatim>\<open>and\<close> leaves: one of its
  operands, not a boolean. \<open>pyval\<close> holds the values that occur, and \<open>truthy\<close> is
  Python's truth test on them: \<^verbatim>\<open>None\<close>, \<^verbatim>\<open>False\<close>, the empty string and the empty list
  are false, everything else (a bound method too) is true.
\<close>

datatype pyval =
    PyNone
  | PyBool bool
  | PyStr string
  | PyList "pyval list"
  | PyBoundMethod string nat

fun truthy :: "pyval \<Rightarrow> bool" where
  "truthy PyNone = False"
| "truthy (PyBool b) = b"
| "truthy (PyStr s) = (s \<noteq> [])"
| "truthy (PyList xs) = (xs \<noteq> [])"
| "truthy (PyBoundMethod name self) = True"

section \<open>sequence_of_experiments/models.py\<close>

subsection \<open>Data\<close>

text \<open>
  Experiments and their participants are rows of models outside the source, reached through
  generic foreign keys; a reference is the identity of the row. Of an experiment the
  methods read and write the three pointers, and \<^verbatim>\<open>name\<close> reads \<^verbatim>\<open>_meta.app_label\<close> and the
  text of the experiment. A participant of an experiment belongs to that experiment and
  points to the same person in the next and the previous experiment.
\<close>

type_synonym experiment_ref = nat
type_synonym participant_ref = nat

record Experiment =
  next_experiment :: "experiment_ref option"
  previous_experiment :: "experiment_ref option"
  sequence_of_experiments :: "nat option"
  app_label :: string
  unicode :: string

record ParticipantInExperiment =
  experiment_id :: experiment_ref
  me_in_next_experiment :: "participant_ref option"
  me_in_previous_experiment :: "participant_ref option"

text \<open>
  The rows of the participants of experiments: \<open>row_count\<close> rows, with the references
  \<open>0, \<dots>, row_count - 1\<close>.
\<close>

record participant_table =
  row_count :: nat
  row :: "participant_ref \<Rightarrow> ParticipantInExperiment"

record Participant =
  me_in_first_experiment :: "participant_ref option"

record SequenceOfExperiments =
  pk :: nat
  label :: "string option"
  code :: string
  first_experiment :: "experiment_ref option"
  participant_set :: "Participant list"

subsection \<open>Formatting\<close>

text \<open>\<^verbatim>\<open>'{}'.format(n)\<close> for a row id, and \<^verbatim>\<open>sep.join(xs)\<close>.\<close>

fun str_nat :: "nat \<Rightarrow> string" where
  "str_nat n =
     (if n < 10 then [''0123456789'' ! n]
      else str_nat (n div 10) @ [''0123456789'' ! (n mod 10)])"

fun join :: "string \<Rightarrow> string list \<Rightarrow> string" where
  "join sep [] = []"
| "join sep [x] = x"
| "join sep (x # y # ys) = x @ sep @ join sep (y # ys)"

subsection \<open>Loops\<close>

text \<open>A \<^verbatim>\<open>for\<close> loop whose body may raise: the first exception ends the loop.\<close>

fun for_each :: "('a \<Rightarrow> 's \<Rightarrow> error + 's) \<Rightarrow> 'a list \<Rightarrow> 's \<Rightarrow> error + 's" where
  "for_each body [] s = Inr s"
| "for_each body (x # xs) s =
     (case body x s of Inl e \<Rightarrow> Inl e | Inr s' \<Rightarrow> for_each body xs s')"

subsection \<open>SequenceOfExperiments\<close>

text \<open>
  \<^verbatim>\<open>experiments\<close>: the \<^verbatim>\<open>while True\<close> loop follows \<^verbatim>\<open>next_experiment\<close> until it is
  \<^verbatim>\<open>None\<close>. On a cyclic chain it does not return, which is the value \<open>None\<close> here.
\<close>

partial_function (option) experiments_loop ::
    "(experiment_ref \<Rightarrow> Experiment) \<Rightarrow> experiment_ref option \<Rightarrow> experiment_ref list
      \<Rightarrow> experiment_ref list option" where
  "experiments_loop es experiment lst =
     (case experiment of
        None \<Rightarrow> Some lst
      | Some e \<Rightarrow> experiments_loop es (next_experiment (es e)) (lst @ [e]))"

definition SequenceOfExperiments_experiments ::
    "(experiment_ref \<Rightarrow> Experiment) \<Rightarrow> SequenceOfExperiments \<Rightarrow> experiment_ref list option" where
  "SequenceOfExperiments_experiments es self = experiments_loop es (first_experiment self) []"

definition SequenceOfExperiments_participants :: "SequenceOfExperiments \<Rightarrow> Participant list" where
  "SequenceOfExperiments_participants self = participant_set self"

text \<open>
  \<^verbatim>\<open>name\<close>: inside the method \<^verbatim>\<open>self.name\<close> is the method itself, bound to the row (the
  model has no field of that name). Under the test come the label (used when it is
  neither \<^verbatim>\<open>None\<close> nor empty), the names of the experiments, which \<open>experiment_names_postfix\<close>
  joins, and the text \<^verbatim>\<open>'{}: {}'.format(self.pk, postfix)\<close>. The result is \<open>None\<close> when
  \<^verbatim>\<open>experiments()\<close> does not return.
\<close>

definition experiment_names_postfix ::
    "(experiment_ref \<Rightarrow> Experiment) \<Rightarrow> SequenceOfExperiments \<Rightarrow> string option" where
  "experiment_names_postfix es self =
     (case SequenceOfExperiments_experiments es self of
        None \<Rightarrow> None
      | Some experiments \<Rightarrow>
          let experiment_names =
                map (\<lambda>e. app_label (es e) @ '' '' @ unicode (es e)) experiments
          in if experiment_names \<noteq> [] then Some (join '', '' experiment_names)
             else Some ''[empty sequence]'')"

definition SequenceOfExperiments_name ::
    "(experiment_ref \<Rightarrow> Experiment) \<Rightarrow> SequenceOfExperiments \<Rightarrow> pyval option" where
  "SequenceOfExperiments_name es self =
     (let self_name = PyBoundMethod ''name'' (pk self) in
      if truthy self_name then Some self_name
      else map_option (\<lambda>postfix. PyStr (str_nat (pk self) @ '': '' @ postfix))
             (case label self of
                None \<Rightarrow> experiment_names_postfix es self
              | Some l \<Rightarrow> if l \<noteq> [] then Some l else experiment_names_postfix es self))"

text \<open>
  \<^verbatim>\<open>start_url\<close>: \<open>sequence_of_experiments_code\<close> is the constant
  \<^verbatim>\<open>constants.sequence_of_experiments_code\<close>, the name of the query parameter, of a module
  outside the source. Its value in the URL is \<^verbatim>\<open>self.id\<close>, the primary key of the row.
\<close>

definition SequenceOfExperiments_start_url :: "string \<Rightarrow> SequenceOfExperiments \<Rightarrow> string" where
  "SequenceOfExperiments_start_url sequence_of_experiments_code self =
     ''/InitializeSequence/?'' @ sequence_of_experiments_code @ ''='' @ str_nat (pk self)"

text \<open>
  \<^verbatim>\<open>add_experiments\<close>: \<^verbatim>\<open>experiments[0]\<close> raises \<^verbatim>\<open>IndexError\<close> on the empty list. The first
  loop, with the body \<open>link_step\<close>, wires the pointers of \<^verbatim>\<open>experiments[i]\<close> and
  \<^verbatim>\<open>experiments[i + 1]\<close>; the second, with the body \<open>set_sequence\<close>, sets the sequence of
  every experiment. The objects are the rows, so \<^verbatim>\<open>save\<close> changes nothing more.
\<close>

definition link_step ::
    "experiment_ref list \<Rightarrow> nat \<Rightarrow> (experiment_ref \<Rightarrow> Experiment) \<Rightarrow> (experiment_ref \<Rightarrow> Experiment)" where
  "link_step experiments i es =
     (let es' = es(experiments ! i :=
                  (es (experiments ! i))\<lparr>next_experiment := Some (experiments ! (i + 1))\<rparr>)
      in es'(experiments ! (i + 1) :=
              (es' (experiments ! (i + 1)))\<lparr>previous_experiment := Some (experiments ! i)\<rparr>))"

definition set_sequence ::
    "SequenceOfExperiments \<Rightarrow> experiment_ref \<Rightarrow> (experiment_ref \<Rightarrow> Experiment)
      \<Rightarrow> (experiment_ref \<Rightarrow> Experiment)" where
  "set_sequence self e es = es(e := (es e)\<lparr>sequence_of_experiments := Some (pk self)\<rparr>)"

definition add_experiments ::
    "(experiment_ref \<Rightarrow> Experiment) \<Rightarrow> SequenceOfExperiments \<Rightarrow> experiment_ref list
      \<Rightarrow> error + SequenceOfExperiments \<times> (experiment_ref \<Rightarrow> Experiment)" where
  "add_experiments es self experiments =
     (case experiments of
        [] \<Rightarrow> Inl IndexError
      | e0 # rest \<Rightarrow>
          let self' = self\<lparr>first_experiment := Some e0\<rparr>;
              es1 = fold (link_step experiments) [0..<length experiments - 1] es;
              es2 = fold (set_sequence self') experiments es1
          in Inr (self', es2))"

text \<open>\<^verbatim>\<open>add_experiments\<close> followed by \<^verbatim>\<open>experiments\<close> on the sequence it leaves.\<close>

definition experiments_after_add ::
    "(experiment_ref \<Rightarrow> Experiment) \<Rightarrow> SequenceOfExperiments \<Rightarrow> experiment_ref list
      \<Rightarrow> error + experiment_ref list option" where
  "experiments_after_add es self experiments =
     (case add_experiments es self experiments of
        Inl e \<Rightarrow> Inl e
      | Inr (self', es') \<Rightarrow> Inr (SequenceOfExperiments_experiments es' self'))"

text \<open>
  Modelled from the spec: \<^verbatim>\<open>participants()\<close> of an experiment, whose class is outside the
  source. As the two \<^verbatim>\<open>participants\<close> methods of the source it is
  \<^verbatim>\<open>self.participant_set.all()\<close>: the rows whose foreign key is the experiment, in
  primary-key order.
\<close>

definition Experiment_participants :: "participant_table \<Rightarrow> experiment_ref \<Rightarrow> participant_ref list" where
  "Experiment_participants tab e = filter (\<lambda>p. experiment_id (row tab p) = e) [0..<row_count tab]"

text \<open>
  The body of the inner loop of \<^verbatim>\<open>connect_participants_between_experiments\<close>: an index
  outside either list raises \<^verbatim>\<open>IndexError\<close>.
\<close>

definition connect_pair ::
    "participant_ref list \<Rightarrow> participant_ref list \<Rightarrow> nat \<Rightarrow> participant_table
      \<Rightarrow> error + participant_table" where
  "connect_pair participants_left participants_right participant_index tab =
     (if participant_index < length participants_left
      then let participant_left = participants_left ! participant_index in
        if participant_index < length participants_right
        then let participant_right = participants_right ! participant_index;
                 rows = (row tab)(participant_left :=
                          (row tab participant_left)\<lparr>me_in_next_experiment := Some participant_right\<rparr>)
             in Inr (tab\<lparr>row := rows(participant_right :=
                          (rows participant_right)\<lparr>me_in_previous_experiment := Some participant_left\<rparr>)\<rparr>)
        else Inl IndexError
      else Inl IndexError)"

definition connect_experiments ::
    "experiment_ref list \<Rightarrow> nat \<Rightarrow> nat \<Rightarrow> participant_table \<Rightarrow> error + participant_table" where
  "connect_experiments experiments num_participants experiment_index tab =
     (let participants_left = Experiment_participants tab (experiments ! experiment_index);
          participants_right = Experiment_participants tab (experiments ! (experiment_index + 1))
      in for_each (connect_pair participants_left participants_right) [0..<num_participants] tab)"

definition connect_participants_between_experiments ::
    "(experiment_ref \<Rightarrow> Experiment) \<Rightarrow> participant_table \<Rightarrow> SequenceOfExperiments
      \<Rightarrow> (error + participant_table) option" where
  "connect_participants_between_experiments es tab self =
     (let num_participants = length (SequenceOfExperiments_participants self) in
      case SequenceOfExperiments_experiments es self of
        None \<Rightarrow> None
      | Some experiments \<Rightarrow>
          Some (for_each (connect_experiments experiments num_participants)
                  [0..<length experiments - 1] tab))"

subsection \<open>Participant\<close>

partial_function (option) participants_loop ::
    "participant_table \<Rightarrow> participant_ref option \<Rightarrow> participant_ref list
      \<Rightarrow> participant_ref list option" where
  "participants_loop tab me_in_next lst =
     (case me_in_next of
        None \<Rightarrow> Some lst
      | Some p \<Rightarrow> participants_loop tab (me_in_next_experiment (row tab p)) (lst @ [p]))"

definition Participant_participants :: "participant_table \<Rightarrow> Participant \<Rightarrow> participant_ref list option" where
  "Participant_participants tab self = participants_loop tab (me_in_first_experiment self) []"

subsection \<open>Linked chains\<close>

text \<open>
  \<open>chain nxt head xs\<close>: following \<open>nxt\<close> from the pointer \<open>head\<close> visits the rows \<open>xs\<close>, in
  this order, and then reaches the null pointer.
\<close>

fun chain :: "(nat \<Rightarrow> nat option) \<Rightarrow> nat option \<Rightarrow> nat list \<Rightarrow> bool" where
  "chain nxt head [] = (head = None)"
| "chain nxt head (x # xs) = (head = Some x \<and> chain nxt (nxt x) xs)"

text \<open>
  What \<open>m\<close> rounds of the inner loop of \<^verbatim>\<open>connect_participants_between_experiments\<close> leave:
  the first \<open>m\<close> rows of the two lists point to each other, and nothing else has changed.
\<close>

definition connected ::
    "participant_ref list \<Rightarrow> participant_ref list \<Rightarrow> nat \<Rightarrow> participant_table \<Rightarrow> participant_table
      \<Rightarrow> bool" where
  "connected left right m tab tab' \<longleftrightarrow>
     row_count tab' = row_count tab
     \<and> (\<forall>p. experiment_id (row tab' p) = experiment_id (row tab p))
     \<and> (\<forall>i<m. me_in_next_experiment (row tab' (left ! i)) = Some (right ! i))
     \<and> (\<forall>p. p \<notin> set (take m left) \<longrightarrow>
            me_in_next_experiment (row tab' p) = me_in_next_experiment (row tab p))
     \<and> (\<forall>i<m. me_in_previous_experiment (row tab' (right ! i)) = Some (left ! i))
     \<and> (\<forall>p. p \<notin> set (take m right) \<longrightarrow>
            me_in_previous_experiment (row tab' p) = me_in_previous_experiment (row tab p))"

subsection \<open>Example data\<close>

text \<open>
  A sequence with two participants; experiments that point nowhere yet; the experiments
  1 and 2 linked into a chain; four participants of experiments, the rows 0 and 1 in
  experiment 1 and the rows 2 and 3 in experiment 2; and the same table with row 0
  pointing to row 2.
\<close>

definition fresh_experiment :: Experiment where
  "fresh_experiment =
     \<lparr>next_experiment = None, previous_experiment = None, sequence_of_experiments = None,
      app_label = ''app'', unicode = ''experiment''\<rparr>"

definition fresh_experiments :: "experiment_ref \<Rightarrow> Experiment" where
  "fresh_experiments = (\<lambda>e. fresh_experiment)"

definition example_participant :: Participant where
  "example_participant = \<lparr>me_in_first_experiment = Some 0\<rparr>"

definition example_sequence :: SequenceOfExperiments where
  "example_sequence =
     \<lparr>pk = 1, label = None, code = ''abcdefgh'', first_experiment = None,
      participant_set = [example_participant, example_participant]\<rparr>"

definition linked_experiments :: "experiment_ref \<Rightarrow> Experiment" where
  "linked_experiments = fresh_experiments(1 := fresh_experiment\<lparr>next_experiment := Some 2\<rparr>)"

definition linked_sequence :: SequenceOfExperiments where
  "linked_sequence = example_sequence\<lparr>first_experiment := Some 1\<rparr>"

definition example_table :: participant_table where
  "example_table =
     \<lparr>row_count = 4,
      row = (\<lambda>p. \<lparr>experiment_id = (if p < 2 then 1 else 2), me_in_next_experiment = None,
                  me_in_previous_experiment = None\<rparr>)\<rparr>"

definition linked_table :: participant_table where
  "linked_table =
     example_table\<lparr>row := (row example_table)
       (0 := (row example_table 0)\<lparr>me_in_next_experiment := Some 2\<rparr>)\<rparr>"

section \<open>matches.py\<close>

subsection \<open>Data\<close>

text \<open>
  A treatment carries the code and the capacity that the match methods read
  (\<^verbatim>\<open>m.treatment.code\<close>, \<^verbatim>\<open>self.treatment.participants_per_match\<close>). Of a participant of a
  match the methods read the attribute \<^verbatim>\<open>is_finished\<close> and the result of the call
  \<^verbatim>\<open>is_finished_playing()\<close>; the participant class is not part of the source, so both are
  fields here.
\<close>

record Treatment =
  code :: string
  participants_per_match :: int

record ParticipantInMatch =
  is_finished :: bool
  is_finished_playing :: bool

text \<open>
  \<^verbatim>\<open>BaseMatch\<close> and its subclasses, as a record and its extensions. The methods of
  \<^verbatim>\<open>BaseMatch\<close> read \<^verbatim>\<open>self.treatment\<close> and \<^verbatim>\<open>self.participant_set\<close>, and the class declares
  neither: a row has them when declarations outside the source give them to its class.
  \<^verbatim>\<open>MatchOffer\<close>, as the source declares it, has only \<^verbatim>\<open>amount_offered\<close>. So both are
  optional here: \<open>None\<close> is the attribute that the row does not have, and reading it
  raises \<^verbatim>\<open>AttributeError\<close>. \<open>Some\<close> of \<open>participant_set\<close> holds the rows of
  \<^verbatim>\<open>self.participant_set.all()\<close>. \<^verbatim>\<open>time_started\<close>, which no method reads, is left out.
\<close>

record BaseMatch =
  treatment :: "Treatment option"
  participant_set :: "ParticipantInMatch list option"

record MatchInTwoPersonAsymmetricGame = BaseMatch +
  participant_1 :: "ParticipantInMatch option"
  participant_2 :: "ParticipantInMatch option"

record MatchOffer = BaseMatch +
  amount_offered :: "nat option"

record Request =
  session :: "string \<rightharpoonup> string"

subsection \<open>BaseMatch\<close>

definition BaseMatch_is_ready_for_next_participant :: "'a BaseMatch_scheme \<Rightarrow> error + pyval" where
  "BaseMatch_is_ready_for_next_participant self = Inl NotImplementedError"

definition BaseMatch_participants :: "'a BaseMatch_scheme \<Rightarrow> error + ParticipantInMatch list" where
  "BaseMatch_participants self =
     (case participant_set self of
        None \<Rightarrow> Inl AttributeError
      | Some rows \<Rightarrow> Inr rows)"

text \<open>
  \<^verbatim>\<open>return len(self.participants()) >= self.treatment.participants_per_match\<close>: the left
  operand is evaluated first.
\<close>

definition BaseMatch_is_full :: "'a BaseMatch_scheme \<Rightarrow> error + bool" where
  "BaseMatch_is_full self =
     (case BaseMatch_participants self of
        Inl e \<Rightarrow> Inl e
      | Inr participants \<Rightarrow>
          (case treatment self of
             None \<Rightarrow> Inl AttributeError
           | Some t \<Rightarrow> Inr (int (length participants) \<ge> participants_per_match t)))"

text \<open>
  \<^verbatim>\<open>return self.is_full() and [participant.is_finished for participant in self.participants()]\<close>:
  \<^verbatim>\<open>False\<close> when the match is not full, and otherwise the list itself.
\<close>

definition BaseMatch_is_finished :: "'a BaseMatch_scheme \<Rightarrow> error + pyval" where
  "BaseMatch_is_finished self =
     (case BaseMatch_is_full self of
        Inl e \<Rightarrow> Inl e
      | Inr full \<Rightarrow>
          if \<not> full then Inr (PyBool False)
          else (case BaseMatch_participants self of
                  Inl e \<Rightarrow> Inl e
                | Inr participants \<Rightarrow>
                    Inr (PyList (map (\<lambda>participant. PyBool (is_finished participant)) participants))))"

subsection \<open>MatchInTwoPersonAsymmetricGame and MatchOffer\<close>

text \<open>
  \<^verbatim>\<open>return self.participant_1 and self.participant_1.is_finished_playing() and not self.participant_2\<close>.
  A model instance is true and \<^verbatim>\<open>None\<close> is false, so the chain of \<^verbatim>\<open>and\<close> returns \<^verbatim>\<open>None\<close>
  when participant 1 is unset, the result of \<^verbatim>\<open>is_finished_playing()\<close> when that is false,
  and \<^verbatim>\<open>not self.participant_2\<close> otherwise.
\<close>

definition MatchInTwoPersonAsymmetricGame_is_ready_for_next_participant ::
    "'a MatchInTwoPersonAsymmetricGame_scheme \<Rightarrow> error + pyval" where
  "MatchInTwoPersonAsymmetricGame_is_ready_for_next_participant self =
     (case participant_1 self of
        None \<Rightarrow> Inr PyNone
      | Some p1 \<Rightarrow>
          if \<not> is_finished_playing p1 then Inr (PyBool (is_finished_playing p1))
          else Inr (PyBool (participant_2 self = None)))"

text \<open>\<^verbatim>\<open>MatchOffer\<close> defines no method of its own: it inherits the one of \<^verbatim>\<open>BaseMatch\<close>.\<close>

definition MatchOffer_is_ready_for_next_participant :: "'a MatchOffer_scheme \<Rightarrow> error + pyval" where
  "MatchOffer_is_ready_for_next_participant self = BaseMatch_is_ready_for_next_participant self"

subsection \<open>MatchManager\<close>

text \<open>
  The condition of the generator in \<^verbatim>\<open>next_open_match\<close>, for one match:
  \<^verbatim>\<open>m.treatment.code == request.session[Symbols.treatment_code] and m.is_ready_for_next_participant()\<close>.
  Its operands are evaluated from the left: \<^verbatim>\<open>m.treatment.code\<close> (\<^verbatim>\<open>AttributeError\<close> on a
  match without a treatment), then the session lookup (\<^verbatim>\<open>KeyError\<close> when the key is
  missing), and, only when the two codes are equal,
  \<^verbatim>\<open>m.is_ready_for_next_participant()\<close>, whose exception leaves the generator. The
  generator takes the truth value of the result. The manager belongs to one model class,
  whose \<^verbatim>\<open>is_ready_for_next_participant\<close> is the parameter \<open>is_ready\<close>; \<open>treatment_code\<close> is
  the key \<^verbatim>\<open>Symbols.treatment_code\<close>, a constant of a module outside the source.
\<close>

definition filter_condition ::
    "('a BaseMatch_scheme \<Rightarrow> error + pyval) \<Rightarrow> string \<Rightarrow> Request \<Rightarrow> 'a BaseMatch_scheme
      \<Rightarrow> error + bool" where
  "filter_condition is_ready treatment_code request m =
     (case treatment m of
        None \<Rightarrow> Inl AttributeError
      | Some t \<Rightarrow>
          (case session request treatment_code of
             None \<Rightarrow> Inl KeyError
           | Some c \<Rightarrow>
               if code t = c
               then (case is_ready m of Inl e \<Rightarrow> Inl e | Inr v \<Rightarrow> Inr (truthy v))
               else Inr False))"

text \<open>
  \<^verbatim>\<open>next_open_match\<close> takes the first element of the generator over the stored matches; an
  exhausted generator raises \<^verbatim>\<open>StopIteration\<close>.
\<close>

fun next_open_match ::
    "('a BaseMatch_scheme \<Rightarrow> error + pyval) \<Rightarrow> string \<Rightarrow> 'a BaseMatch_scheme list \<Rightarrow> Request
      \<Rightarrow> error + 'a BaseMatch_scheme" where
  "next_open_match is_ready treatment_code [] request = Inl StopIteration"
| "next_open_match is_ready treatment_code (m # matches) request =
     (case filter_condition is_ready treatment_code request m of
        Inl e \<Rightarrow> Inl e
      | Inr b \<Rightarrow>
          if b then Inr m
          else next_open_match is_ready treatment_code matches request)"

text \<open>
  A match is open for a code when its treatment has that code and its
  \<^verbatim>\<open>is_ready_for_next_participant()\<close> returns a true value.
\<close>

definition is_open :: "('a BaseMatch_scheme \<Rightarrow> error + pyval) \<Rightarrow> string \<Rightarrow> 'a BaseMatch_scheme \<Rightarrow> bool" where
  "is_open is_ready c m =
     (case treatment m of
        None \<Rightarrow> False
      | Some t \<Rightarrow> code t = c \<and> (case is_ready m of Inl e \<Rightarrow> False | Inr v \<Rightarrow> truthy v))"

subsection \<open>Example data\<close>

text \<open>
  A treatment of capacity 1 with the code \<^verbatim>\<open>T\<close>; a request whose session holds that code,
  and one whose session is empty; a participant who has finished neither the match nor
  playing, and one who has; a full match whose only participant has not finished; a
  \<^verbatim>\<open>MatchOffer\<close> as the source declares the class, with neither a treatment nor
  participants; two asymmetric matches, the first still waiting for its participant 1 to
  finish playing, the second ready for participant 2; and an asymmetric match with no more
  than the source declares for its class, so without a treatment.
\<close>

definition example_treatment :: Treatment where
  "example_treatment = \<lparr>code = ''T'', participants_per_match = 1\<rparr>"

definition example_request :: Request where
  "example_request = \<lparr>session = [''treatment_code'' \<mapsto> ''T'']\<rparr>"

definition new_request :: Request where
  "new_request = \<lparr>session = Map.empty\<rparr>"

definition unfinished_participant :: ParticipantInMatch where
  "unfinished_participant = \<lparr>is_finished = False, is_finished_playing = False\<rparr>"

definition finished_participant :: ParticipantInMatch where
  "finished_participant = \<lparr>is_finished = True, is_finished_playing = True\<rparr>"

definition full_unfinished_match :: BaseMatch where
  "full_unfinished_match =
     \<lparr>treatment = Some example_treatment, participant_set = Some [unfinished_participant]\<rparr>"

definition example_offer :: MatchOffer where
  "example_offer = \<lparr>treatment = None, participant_set = None, amount_offered = None\<rparr>"

definition waiting_match :: MatchInTwoPersonAsymmetricGame where
  "waiting_match =
     \<lparr>treatment = Some example_treatment, participant_set = Some [unfinished_participant],
      participant_1 = Some unfinished_participant, participant_2 = None\<rparr>"

definition open_match :: MatchInTwoPersonAsymmetricGame where
  "open_match =
     \<lparr>treatment = Some example_treatment, participant_set = Some [finished_participant],
      participant_1 = Some finished_participant, participant_2 = None\<rparr>"

definition bare_match :: MatchInTwoPersonAsymmetricGame where
  "bare_match =
     \<lparr>treatment = None, participant_set = None, participant_1 = None, participant_2 = None\<rparr>"

section \<open>Properties of the chains\<close>

subsection \<open>Chains and the traversals\<close>

lemma chain_unique: "chain nxt h xs \<Longrightarrow> chain nxt h ys \<Longrightarrow> xs = ys"
proof (induction xs arbitrary: h ys)
  case Nil
  then show ?case by (cases ys) auto
next
  case (Cons x xs)
  then show ?case by (cases ys) auto
qed

lemma chain_suffix:
  "chain nxt h xs \<Longrightarrow> x \<in> set xs \<Longrightarrow> \<exists>ys zs. xs = ys @ x # zs \<and> chain nxt (Some x) (x # zs)"
proof (induction xs arbitrary: h)
  case Nil
  then show ?case by simp
next
  case (Cons a xs)
  show ?case
  proof (cases "x = a")
    case True
    with Cons.prems show ?thesis by (intro exI [of _ "[]"] exI [of _ xs]) simp
  next
    case False
    with Cons.prems have "x \<in> set xs" "chain nxt (nxt a) xs" by auto
    from Cons.IH [OF this(2) this(1)] obtain ys zs
      where "xs = ys @ x # zs" "chain nxt (Some x) (x # zs)" by blast
    then show ?thesis by (intro exI [of _ "a # ys"] exI [of _ zs]) simp
  qed
qed

text \<open>A chain that reaches the null pointer is acyclic: no row occurs twice in it.\<close>

lemma chain_distinct: "chain nxt h xs \<Longrightarrow> distinct xs"
proof (induction xs arbitrary: h)
  case Nil
  then show ?case by simp
next
  case (Cons a xs)
  then have tl: "chain nxt (nxt a) xs" and h: "h = Some a" by simp_all
  have "a \<notin> set xs"
  proof
    assume "a \<in> set xs"
    from chain_suffix [OF tl this] obtain ys zs
      where xs: "xs = ys @ a # zs" and c: "chain nxt (Some a) (a # zs)" by blast
    have "chain nxt (Some a) (a # xs)" using Cons.prems h by simp
    from chain_unique [OF this c] have "xs = zs" by simp
    with xs show False by simp
  qed
  with Cons.IH [OF tl] show ?case by simp
qed

lemma chain_nth:
  "xs \<noteq> [] \<Longrightarrow> \<forall>j. j + 1 < length xs \<longrightarrow> nxt (xs ! j) = Some (xs ! (j + 1))
    \<Longrightarrow> nxt (last xs) = None \<Longrightarrow> chain nxt (Some (hd xs)) xs"
proof (induction xs)
  case Nil
  then show ?case by simp
next
  case (Cons x xs)
  show ?case
  proof (cases xs)
    case Nil
    with Cons.prems show ?thesis by simp
  next
    case (Cons y ys)
    have step: "nxt x = Some y" using Cons.prems(2) [rule_format, of 0] Cons by simp
    have "\<forall>j. j + 1 < length xs \<longrightarrow> nxt (xs ! j) = Some (xs ! (j + 1))"
    proof (intro allI impI)
      fix j assume "j + 1 < length xs"
      with Cons.prems(2) [rule_format, of "Suc j"] show "nxt (xs ! j) = Some (xs ! (j + 1))" by simp
    qed
    moreover have "nxt (last xs) = None" using Cons.prems(3) Cons by simp
    moreover have "xs \<noteq> []" using Cons by simp
    ultimately have "chain nxt (Some (hd xs)) xs" by (rule Cons.IH [rotated 1])
    with step Cons show ?thesis by simp
  qed
qed

lemma experiments_loop_chain:
  "chain (\<lambda>e. next_experiment (es e)) h xs \<Longrightarrow> experiments_loop es h lst = Some (lst @ xs)"
proof (induction xs arbitrary: h lst)
  case Nil
  then show ?case by (simp add: experiments_loop.simps)
next
  case (Cons x xs)
  then have h: "h = Some x" and rest: "chain (\<lambda>e. next_experiment (es e)) (next_experiment (es x)) xs"
    by simp_all
  have "experiments_loop es h lst = experiments_loop es (next_experiment (es x)) (lst @ [x])"
    using h by (subst experiments_loop.simps) simp
  also have "\<dots> = Some ((lst @ [x]) @ xs)"
    by (rule Cons.IH [OF rest])
  finally show ?case by simp
qed

lemma participants_loop_chain:
  "chain (\<lambda>p. me_in_next_experiment (row tab p)) h xs \<Longrightarrow> participants_loop tab h lst = Some (lst @ xs)"
proof (induction xs arbitrary: h lst)
  case Nil
  then show ?case by (simp add: participants_loop.simps)
next
  case (Cons x xs)
  then have h: "h = Some x"
    and rest: "chain (\<lambda>p. me_in_next_experiment (row tab p)) (me_in_next_experiment (row tab x)) xs"
    by simp_all
  have "participants_loop tab h lst
      = participants_loop tab (me_in_next_experiment (row tab x)) (lst @ [x])"
    using h by (subst participants_loop.simps) simp
  also have "\<dots> = Some ((lst @ [x]) @ xs)"
    by (rule Cons.IH [OF rest])
  finally show ?case by simp
qed

text \<open>Conversely, what the loop returns is a chain: it has reached the null pointer.\<close>

lemma experiments_loop_returns:
  assumes "experiments_loop es h lst = Some ys"
  shows "\<exists>xs. chain (\<lambda>e. next_experiment (es e)) h xs \<and> ys = lst @ xs"
proof (rule experiments_loop.raw_induct
    [where P = "\<lambda>es h lst ys. \<exists>xs. chain (\<lambda>e. next_experiment (es e)) h xs \<and> ys = lst @ xs",
      OF _ assms])
  fix loop es h lst ys
  assume IH: "\<And>es h lst ys. loop es h lst = Some ys
      \<Longrightarrow> \<exists>xs. chain (\<lambda>e. next_experiment (es e)) h xs \<and> ys = lst @ xs"
    and unfolded: "(case h of None \<Rightarrow> Some lst
        | Some e \<Rightarrow> loop es (next_experiment (es e)) (lst @ [e])) = Some ys"
  show "\<exists>xs. chain (\<lambda>e. next_experiment (es e)) h xs \<and> ys = lst @ xs"
  proof (cases h)
    case None
    with unfolded show ?thesis by simp
  next
    case (Some e)
    with unfolded have "loop es (next_experiment (es e)) (lst @ [e]) = Some ys" by simp
    from IH [OF this] obtain xs
      where "chain (\<lambda>e. next_experiment (es e)) (next_experiment (es e)) xs" "ys = (lst @ [e]) @ xs"
      by blast
    with Some show ?thesis by (intro exI [of _ "e # xs"]) simp
  qed
qed

lemma experiments_distinct:
  assumes "SequenceOfExperiments_experiments es self = Some exps"
  shows "distinct exps"
proof -
  from assms obtain xs where "chain (\<lambda>e. next_experiment (es e)) (first_experiment self) xs" "exps = [] @ xs"
    unfolding SequenceOfExperiments_experiments_def by (blast dest: experiments_loop_returns)
  then show ?thesis by (simp add: chain_distinct)
qed

text \<open>
  C7. When the rows reached from the head pointer form a chain \<open>xs\<close> that ends in the null
  pointer (such a chain is acyclic, see \<open>chain_distinct\<close>), \<^verbatim>\<open>experiments()\<close> returns, and
  what it returns is the whole chain \<open>xs\<close>, so a list of the length of the chain; and
  likewise \<^verbatim>\<open>Participant.participants()\<close> on the chain of \<^verbatim>\<open>me_in_next_experiment\<close>.
\<close>

theorem traversals_return_the_chain:
  "(chain (\<lambda>e. next_experiment (es e)) (first_experiment sequence) xs \<longrightarrow>
      SequenceOfExperiments_experiments es sequence = Some xs
      \<and> map_option length (SequenceOfExperiments_experiments es sequence) = Some (length xs))
   \<and> (chain (\<lambda>p. me_in_next_experiment (row tab p)) (me_in_first_experiment participant) ys \<longrightarrow>
      Participant_participants tab participant = Some ys
      \<and> map_option length (Participant_participants tab participant) = Some (length ys))"
  using experiments_loop_chain [of es "first_experiment sequence" xs "[]"]
    participants_loop_chain [of tab "me_in_first_experiment participant" ys "[]"]
  by (simp add: SequenceOfExperiments_experiments_def Participant_participants_def)

theorem traversals_return_the_chain_witness:
  "chain (\<lambda>e. next_experiment (linked_experiments e)) (first_experiment linked_sequence) [1, 2]
   \<and> SequenceOfExperiments_experiments linked_experiments linked_sequence = Some [1, 2]
   \<and> chain (\<lambda>p. me_in_next_experiment (row linked_table p)) (me_in_first_experiment example_participant) [0, 2]
   \<and> Participant_participants linked_table example_participant = Some [0, 2]"
proof -
  have c1: "chain (\<lambda>e. next_experiment (linked_experiments e)) (first_experiment linked_sequence) [1, 2]"
    by (simp add: linked_experiments_def linked_sequence_def example_sequence_def
        fresh_experiments_def fresh_experiment_def)
  have c2: "chain (\<lambda>p. me_in_next_experiment (row linked_table p))
      (me_in_first_experiment example_participant) [0, 2]"
    by (simp add: linked_table_def example_table_def example_participant_def)
  show ?thesis
    using c1 c2
      traversals_return_the_chain [of linked_experiments linked_sequence "[1, 2]"
        linked_table example_participant "[0, 2]"]
    by simp
qed

subsection \<open>add_experiments\<close>

text \<open>
  After the first \<open>k\<close> rounds of the first loop on a list without repetition, each of the
  first \<open>k\<close> experiments points to its successor in the list, and the pointer of every
  other experiment is what it was.
\<close>

lemma link_next:
  assumes "distinct xs" "k \<le> length xs - 1"
  shows "(\<forall>j<k. next_experiment (fold (link_step xs) [0..<k] es (xs ! j)) = Some (xs ! (j + 1)))
       \<and> (\<forall>x. x \<notin> set (take k xs) \<longrightarrow>
            next_experiment (fold (link_step xs) [0..<k] es x) = next_experiment (es x))"
  using assms(2)
proof (induction k)
  case 0
  then show ?case by simp
next
  case (Suc k)
  let ?esk = "fold (link_step xs) [0..<k] es"
  have k: "k < length xs" "Suc k < length xs" using Suc.prems by simp_all
  have IH: "\<forall>j<k. next_experiment (?esk (xs ! j)) = Some (xs ! (j + 1))"
    "\<forall>x. x \<notin> set (take k xs) \<longrightarrow> next_experiment (?esk x) = next_experiment (es x)"
    using Suc by simp_all
  have nxt: "next_experiment (link_step xs k ?esk x)
      = (if x = xs ! k then Some (xs ! (k + 1)) else next_experiment (?esk x))" for x
    by (simp add: link_step_def Let_def)
  have fold: "fold (link_step xs) [0..<Suc k] es = link_step xs k ?esk" by simp
  show ?case
  proof (intro conjI allI impI)
    fix j assume "j < Suc k"
    show "next_experiment (fold (link_step xs) [0..<Suc k] es (xs ! j)) = Some (xs ! (j + 1))"
    proof (cases "j = k")
      case True
      then show ?thesis unfolding fold nxt by simp
    next
      case False
      with \<open>j < Suc k\<close> have "j < k" by simp
      then have "xs ! j \<noteq> xs ! k" using assms(1) k by (simp add: nth_eq_iff_index_eq)
      with IH(1) \<open>j < k\<close> show ?thesis unfolding fold nxt by simp
    qed
  next
    fix x assume "x \<notin> set (take (Suc k) xs)"
    then have "x \<noteq> xs ! k" "x \<notin> set (take k xs)" using k by (auto simp: take_Suc_conv_app_nth)
    with IH(2) show "next_experiment (fold (link_step xs) [0..<Suc k] es x) = next_experiment (es x)"
      unfolding fold nxt by simp
  qed
qed

lemma set_sequence_next:
  "next_experiment (fold (set_sequence self) xs es x) = next_experiment (es x)"
  by (induction xs arbitrary: es) (simp_all add: set_sequence_def)

lemma add_experiments_chain:
  assumes "experiments \<noteq> []" "distinct experiments" "next_experiment (es (last experiments)) = None"
  shows "experiments_after_add es self experiments = Inr (Some experiments)"
proof -
  obtain e0 rest where ex: "experiments = e0 # rest" using assms(1) by (cases experiments) auto
  let ?self = "self\<lparr>first_experiment := Some e0\<rparr>"
  let ?es1 = "fold (link_step experiments) [0..<length experiments - 1] es"
  let ?es2 = "fold (set_sequence ?self) experiments ?es1"
  have add: "add_experiments es self experiments = Inr (?self, ?es2)"
    unfolding add_experiments_def by (subst (1) ex) (simp add: Let_def)
  have l: "\<forall>j<length experiments - 1. next_experiment (?es1 (experiments ! j)) = Some (experiments ! (j + 1))"
    "\<forall>x. x \<notin> set (take (length experiments - 1) experiments) \<longrightarrow>
        next_experiment (?es1 x) = next_experiment (es x)"
    using link_next [OF assms(2) order_refl, of es] by simp_all
  have "last experiments \<notin> set (butlast experiments)"
    using assms(1,2) by (metis append_butlast_last_id distinct_butlast not_distinct_conv_prefix)
  then have "last experiments \<notin> set (take (length experiments - 1) experiments)"
    by (simp add: butlast_conv_take)
  with l(2) assms(3) have last: "next_experiment (?es2 (last experiments)) = None"
    by (simp add: set_sequence_next)
  have "chain (\<lambda>e. next_experiment (?es2 e)) (Some (hd experiments)) experiments"
    using assms(1) l(1) last by (intro chain_nth) (simp_all add: set_sequence_next)
  then have "experiments_loop ?es2 (Some e0) [] = Some ([] @ experiments)"
    using ex by (intro experiments_loop_chain) simp
  then show ?thesis
    by (simp add: experiments_after_add_def add SequenceOfExperiments_experiments_def)
qed

text \<open>
  C3, as stated, fails on a list that names an experiment twice. With the list
  \<open>[1, 2, 1, 3]\<close> of experiments whose pointers are all null, the loop sets the pointer of
  experiment 1 to 2 in round 0 and to 3 in round 2, and \<^verbatim>\<open>experiments()\<close> returns \<open>[1, 3]\<close>,
  not the four entries of the input.
\<close>

theorem add_experiments_repeated_counterexample:
  "next_experiment (fresh_experiments 1) = None
   \<and> next_experiment (fresh_experiments 2) = None
   \<and> next_experiment (fresh_experiments 3) = None
   \<and> experiments_after_add fresh_experiments example_sequence [1, 2, 1, 3] = Inr (Some [1, 3])
   \<and> experiments_after_add fresh_experiments example_sequence [1, 2, 1, 3] \<noteq> Inr (Some [1, 2, 1, 3])"
  by (simp add: experiments_after_add_def add_experiments_def link_step_def set_sequence_def
      SequenceOfExperiments_experiments_def experiments_loop.simps fresh_experiments_def
      fresh_experiment_def example_sequence_def upt_rec Let_def)

text \<open>
  C3, amended. For every non-empty list of pairwise distinct experiments whose
  \<^verbatim>\<open>next_experiment\<close> pointers are null, \<^verbatim>\<open>add_experiments\<close> returns, and \<^verbatim>\<open>experiments()\<close>
  on the sequence it leaves returns exactly the input list: the same experiments in the
  same order, so with the same length.
\<close>

theorem add_experiments_then_experiments:
  assumes "experiments \<noteq> []"
    and "distinct experiments"
    and "\<forall>e \<in> set experiments. next_experiment (es e) = None"
  shows "experiments_after_add es self experiments = Inr (Some experiments)"
  using assms by (intro add_experiments_chain) simp_all

theorem add_experiments_then_experiments_witness:
  "experiments_after_add fresh_experiments example_sequence [1, 2, 3] = Inr (Some [1, 2, 3])"
  using add_experiments_then_experiments [of "[1, 2, 3]" fresh_experiments example_sequence]
  by (simp add: fresh_experiments_def fresh_experiment_def)

subsection \<open>connect_participants_between_experiments\<close>

lemma for_each_append:
  "for_each body (xs @ ys) s = (case for_each body xs s of Inl e \<Rightarrow> Inl e | Inr s' \<Rightarrow> for_each body ys s')"
  by (induction xs arbitrary: s) (auto split: sum.splits)

lemma Experiment_participants_cong:
  assumes "row_count tab' = row_count tab"
    and "\<And>p. experiment_id (row tab' p) = experiment_id (row tab p)"
  shows "Experiment_participants tab' e = Experiment_participants tab e"
  using assms by (simp add: Experiment_participants_def)

lemma Experiment_participants_distinct: "distinct (Experiment_participants tab e)"
  by (simp add: Experiment_participants_def)

lemma Experiment_participants_experiment:
  "p \<in> set (Experiment_participants tab e) \<Longrightarrow> experiment_id (row tab p) = e"
  by (simp add: Experiment_participants_def)

lemma connect_pair_result:
  assumes "i < length left" "i < length right"
  shows "\<exists>tab'. connect_pair left right i tab = Inr tab'
     \<and> row_count tab' = row_count tab
     \<and> (\<forall>p. experiment_id (row tab' p) = experiment_id (row tab p))
     \<and> (\<forall>p. me_in_next_experiment (row tab' p) =
            (if p = left ! i then Some (right ! i) else me_in_next_experiment (row tab p)))
     \<and> (\<forall>p. me_in_previous_experiment (row tab' p) =
            (if p = right ! i then Some (left ! i) else me_in_previous_experiment (row tab p)))"
  using assms by (simp add: connect_pair_def Let_def)

lemma inner_loop_result:
  assumes "distinct left" "distinct right" "m \<le> length left" "m \<le> length right"
  shows "\<exists>tab'. for_each (connect_pair left right) [0..<m] tab = Inr tab' \<and> connected left right m tab tab'"
  using assms(3,4)
proof (induction m)
  case 0
  then show ?case by (simp add: connected_def)
next
  case (Suc m)
  then obtain tab1 where loop: "for_each (connect_pair left right) [0..<m] tab = Inr tab1"
    and c1: "connected left right m tab tab1" by auto
  have m: "m < length left" "m < length right" using Suc.prems by simp_all
  from connect_pair_result [OF m, of tab1] obtain tab2
    where pair: "connect_pair left right m tab1 = Inr tab2"
      and rc: "row_count tab2 = row_count tab1"
      and ex: "\<And>p. experiment_id (row tab2 p) = experiment_id (row tab1 p)"
      and nx: "\<And>p. me_in_next_experiment (row tab2 p) =
            (if p = left ! m then Some (right ! m) else me_in_next_experiment (row tab1 p))"
      and pv: "\<And>p. me_in_previous_experiment (row tab2 p) =
            (if p = right ! m then Some (left ! m) else me_in_previous_experiment (row tab1 p))"
    by blast
  have run: "for_each (connect_pair left right) [0..<Suc m] tab = Inr tab2"
    by (simp add: for_each_append loop pair)
  have neq_l: "left ! i \<noteq> left ! m" if "i < m" for i
    using that m assms(1) by (simp add: nth_eq_iff_index_eq)
  have neq_r: "right ! i \<noteq> right ! m" if "i < m" for i
    using that m assms(2) by (simp add: nth_eq_iff_index_eq)
  have "connected left right (Suc m) tab tab2"
    unfolding connected_def
  proof (intro conjI allI impI)
    show "row_count tab2 = row_count tab" using rc c1 by (simp add: connected_def)
    show "experiment_id (row tab2 p) = experiment_id (row tab p)" for p
      using ex c1 by (simp add: connected_def)
    show "me_in_next_experiment (row tab2 (left ! i)) = Some (right ! i)" if "i < Suc m" for i
      using that c1 neq_l [of i] by (cases "i = m") (simp_all add: nx connected_def)
    show "me_in_previous_experiment (row tab2 (right ! i)) = Some (left ! i)" if "i < Suc m" for i
      using that c1 neq_r [of i] by (cases "i = m") (simp_all add: pv connected_def)
    show "me_in_next_experiment (row tab2 p) = me_in_next_experiment (row tab p)"
      if "p \<notin> set (take (Suc m) left)" for p
      using that c1 m by (simp add: nx connected_def take_Suc_conv_app_nth)
    show "me_in_previous_experiment (row tab2 p) = me_in_previous_experiment (row tab p)"
      if "p \<notin> set (take (Suc m) right)" for p
      using that c1 m by (simp add: pv connected_def take_Suc_conv_app_nth)
  qed
  with run show ?case by blast
qed


lemma outer_loop_result:
  assumes d: "distinct exps"
    and len: "\<forall>e \<in> set exps. length (Experiment_participants tab e) = num"
    and K: "K \<le> length exps - 1"
  shows "\<exists>tab'. for_each (connect_experiments exps num) [0..<K] tab = Inr tab'
     \<and> row_count tab' = row_count tab
     \<and> (\<forall>p. experiment_id (row tab' p) = experiment_id (row tab p))
     \<and> (\<forall>k<K. \<forall>i<num.
          me_in_next_experiment (row tab' (Experiment_participants tab (exps ! k) ! i))
            = Some (Experiment_participants tab (exps ! (k + 1)) ! i)
        \<and> me_in_previous_experiment (row tab' (Experiment_participants tab (exps ! (k + 1)) ! i))
            = Some (Experiment_participants tab (exps ! k) ! i))"
  using K
proof (induction K)
  case 0
  then show ?case by simp
next
  case (Suc K)
  let ?P = "\<lambda>k. Experiment_participants tab (exps ! k)"
  from Suc obtain tab1 where loop: "for_each (connect_experiments exps num) [0..<K] tab = Inr tab1"
    and rc1: "row_count tab1 = row_count tab"
    and ex1: "\<And>p. experiment_id (row tab1 p) = experiment_id (row tab p)"
    and links1: "\<And>k i. k < K \<Longrightarrow> i < num \<Longrightarrow>
          me_in_next_experiment (row tab1 (?P k ! i)) = Some (?P (k + 1) ! i)
        \<and> me_in_previous_experiment (row tab1 (?P (k + 1) ! i)) = Some (?P k ! i)"
    by auto
  have K: "K < length exps" "K + 1 < length exps" using Suc.prems by simp_all
  have lenP: "length (?P k) = num" if "k < length exps" for k
    using len that by simp
  have lenK: "length (?P K) = num" "length (?P (Suc K)) = num"
    using lenP [of K] lenP [of "Suc K"] K by simp_all
  have same: "Experiment_participants tab1 e = Experiment_participants tab e" for e
    by (rule Experiment_participants_cong [OF rc1 ex1])
  have step: "connect_experiments exps num K tab1
      = for_each (connect_pair (?P K) (?P (K + 1))) [0..<num] tab1"
    by (simp add: connect_experiments_def same)
  have "\<exists>tab2. for_each (connect_pair (?P K) (?P (K + 1))) [0..<num] tab1 = Inr tab2
      \<and> connected (?P K) (?P (K + 1)) num tab1 tab2"
    by (intro inner_loop_result) (simp_all add: Experiment_participants_distinct lenK)
  then obtain tab2 where inner: "for_each (connect_pair (?P K) (?P (K + 1))) [0..<num] tab1 = Inr tab2"
    and c: "connected (?P K) (?P (K + 1)) num tab1 tab2" by blast
  have run: "for_each (connect_experiments exps num) [0..<Suc K] tab = Inr tab2"
    using inner by (simp add: for_each_append loop step)
  have other: "?P k ! i \<notin> set (?P k')" if "k < length exps" "k' < length exps" "k \<noteq> k'" "i < num" for k k' i
  proof
    assume a: "?P k ! i \<in> set (?P k')"
    have "?P k ! i \<in> set (?P k)" using that lenP [of k] by simp
    then have "experiment_id (row tab (?P k ! i)) = exps ! k"
      by (rule Experiment_participants_experiment)
    moreover have "experiment_id (row tab (?P k ! i)) = exps ! k'"
      using a by (rule Experiment_participants_experiment)
    ultimately have "exps ! k = exps ! k'" by simp
    with d that show False by (simp add: nth_eq_iff_index_eq)
  qed
  have nx_keep: "me_in_next_experiment (row tab2 p) = me_in_next_experiment (row tab1 p)"
    if "p \<notin> set (?P K)" for p
    using c that by (simp add: connected_def lenK)
  have pv_keep: "me_in_previous_experiment (row tab2 p) = me_in_previous_experiment (row tab1 p)"
    if "p \<notin> set (?P (K + 1))" for p
    using c that by (simp add: connected_def lenK)
  have links2: "me_in_next_experiment (row tab2 (?P k ! i)) = Some (?P (k + 1) ! i)
        \<and> me_in_previous_experiment (row tab2 (?P (k + 1) ! i)) = Some (?P k ! i)"
    if "k < Suc K" "i < num" for k i
  proof (cases "k = K")
    case True
    with c that show ?thesis by (simp add: connected_def)
  next
    case False
    with that have k: "k < K" by simp
    have "?P k ! i \<notin> set (?P K)" using k K that by (intro other) simp_all
    moreover have "?P (k + 1) ! i \<notin> set (?P (K + 1))" using k K that by (intro other) simp_all
    ultimately show ?thesis using links1 [OF k that(2)] by (simp add: nx_keep pv_keep)
  qed
  have "row_count tab2 = row_count tab" using c rc1 by (simp add: connected_def)
  moreover have "\<forall>p. experiment_id (row tab2 p) = experiment_id (row tab p)"
    using c ex1 by (simp add: connected_def)
  ultimately show ?case using run links2 by blast
qed

text \<open>
  C4. Let \<^verbatim>\<open>experiments()\<close> return the chain \<open>exps\<close>, and let every experiment of the chain
  have as many participants as the sequence. Then
  \<^verbatim>\<open>connect_participants_between_experiments\<close> returns without an exception, the participant
  lists of the experiments are what they were, and for every adjacent pair \<open>k\<close>, \<open>k + 1\<close> of
  the chain and every participant index \<open>i\<close>: participant \<open>i\<close> of experiment \<open>k\<close> has
  \<^verbatim>\<open>me_in_next_experiment\<close> equal to participant \<open>i\<close> of experiment \<open>k + 1\<close>, and that one has
  \<^verbatim>\<open>me_in_previous_experiment\<close> equal to participant \<open>i\<close> of experiment \<open>k\<close>.
\<close>

theorem connect_participants_links:
  assumes "SequenceOfExperiments_experiments es self = Some exps"
    and "\<forall>e \<in> set exps. length (Experiment_participants tab e)
           = length (SequenceOfExperiments_participants self)"
  shows "\<exists>tab'. connect_participants_between_experiments es tab self = Some (Inr tab')
     \<and> (\<forall>e. Experiment_participants tab' e = Experiment_participants tab e)
     \<and> (\<forall>k i. k + 1 < length exps \<longrightarrow> i < length (SequenceOfExperiments_participants self) \<longrightarrow>
          me_in_next_experiment (row tab' (Experiment_participants tab' (exps ! k) ! i))
            = Some (Experiment_participants tab' (exps ! (k + 1)) ! i)
        \<and> me_in_previous_experiment (row tab' (Experiment_participants tab' (exps ! (k + 1)) ! i))
            = Some (Experiment_participants tab' (exps ! k) ! i))"
proof -
  let ?num = "length (SequenceOfExperiments_participants self)"
  have d: "distinct exps" using assms(1) by (rule experiments_distinct)
  from outer_loop_result [OF d assms(2) order_refl] obtain tab'
    where run: "for_each (connect_experiments exps ?num) [0..<length exps - 1] tab = Inr tab'"
      and rc: "row_count tab' = row_count tab"
      and ex: "\<And>p. experiment_id (row tab' p) = experiment_id (row tab p)"
      and links: "\<And>k i. k < length exps - 1 \<Longrightarrow> i < ?num \<Longrightarrow>
          me_in_next_experiment (row tab' (Experiment_participants tab (exps ! k) ! i))
            = Some (Experiment_participants tab (exps ! (k + 1)) ! i)
        \<and> me_in_previous_experiment (row tab' (Experiment_participants tab (exps ! (k + 1)) ! i))
            = Some (Experiment_participants tab (exps ! k) ! i)"
    by blast
  have same: "Experiment_participants tab' e = Experiment_participants tab e" for e
    by (rule Experiment_participants_cong [OF rc ex])
  have "connect_participants_between_experiments es tab self = Some (Inr tab')"
    using run by (simp add: connect_participants_between_experiments_def assms(1))
  moreover have "me_in_next_experiment (row tab' (Experiment_participants tab' (exps ! k) ! i))
            = Some (Experiment_participants tab' (exps ! (k + 1)) ! i)
        \<and> me_in_previous_experiment (row tab' (Experiment_participants tab' (exps ! (k + 1)) ! i))
            = Some (Experiment_participants tab' (exps ! k) ! i)"
    if "k + 1 < length exps" "i < ?num" for k i
    using links [of k i] that by (simp add: same)
  ultimately show ?thesis using same by blast
qed

theorem connect_participants_links_witness:
  "SequenceOfExperiments_experiments linked_experiments linked_sequence = Some [1, 2]
   \<and> length (SequenceOfExperiments_participants linked_sequence) = 2
   \<and> Experiment_participants example_table 1 = [0, 1]
   \<and> Experiment_participants example_table 2 = [2, 3]
   \<and> (\<exists>tab'. connect_participants_between_experiments linked_experiments example_table linked_sequence
          = Some (Inr tab')
        \<and> me_in_next_experiment (row tab' 0) = Some 2
        \<and> me_in_previous_experiment (row tab' 2) = Some 0
        \<and> me_in_next_experiment (row tab' 1) = Some 3
        \<and> me_in_previous_experiment (row tab' 3) = Some 1)"
proof -
  have exps: "SequenceOfExperiments_experiments linked_experiments linked_sequence = Some [1, 2]"
    by (simp add: SequenceOfExperiments_experiments_def experiments_loop.simps
        linked_experiments_def linked_sequence_def example_sequence_def fresh_experiments_def
        fresh_experiment_def)
  have num: "length (SequenceOfExperiments_participants linked_sequence) = 2"
    by (simp add: SequenceOfExperiments_participants_def linked_sequence_def example_sequence_def)
  have p1: "Experiment_participants example_table 1 = [0, 1]"
    by (simp add: Experiment_participants_def example_table_def upt_rec)
  have p2: "Experiment_participants example_table 2 = [2, 3]"
    by (simp add: Experiment_participants_def example_table_def upt_rec)
  have lens: "\<forall>e \<in> set [1, 2]. length (Experiment_participants example_table e)
      = length (SequenceOfExperiments_participants linked_sequence)"
    using p1 p2 by (simp add: num)
  from connect_participants_links [OF exps lens] obtain tab'
    where run: "connect_participants_between_experiments linked_experiments example_table
        linked_sequence = Some (Inr tab')"
      and same: "\<And>e. Experiment_participants tab' e = Experiment_participants example_table e"
      and links: "\<And>k i. k + 1 < length [1::nat, 2] \<Longrightarrow>
          i < length (SequenceOfExperiments_participants linked_sequence) \<Longrightarrow>
          me_in_next_experiment (row tab' (Experiment_participants tab' ([1, 2] ! k) ! i))
            = Some (Experiment_participants tab' ([1, 2] ! (k + 1)) ! i)
        \<and> me_in_previous_experiment (row tab' (Experiment_participants tab' ([1, 2] ! (k + 1)) ! i))
            = Some (Experiment_participants tab' ([1, 2] ! k) ! i)"
    by blast
  have "me_in_next_experiment (row tab' 0) = Some 2 \<and> me_in_previous_experiment (row tab' 2) = Some 0"
    using links [of 0 0] p1 p2 by (simp add: num same)
  moreover have "me_in_next_experiment (row tab' 1) = Some 3 \<and> me_in_previous_experiment (row tab' 3) = Some 1"
    using links [of 0 1] p1 p2 by (simp add: num same)
  ultimately show ?thesis using exps num p1 p2 run by blast
qed

subsection \<open>name and start_url\<close>

text \<open>
  C10. For every sequence, \<^verbatim>\<open>name()\<close> returns in its first branch: the value returned is the
  bound method \<^verbatim>\<open>self.name\<close> itself, which is true, so the branches that format
  \<^verbatim>\<open>'{pk}: {postfix}'\<close> from the label or the experiments are not reached, and \<^verbatim>\<open>name()\<close>
  returns no string at all, whatever the experiments are (a cyclic chain included).
\<close>

theorem name_returns_the_bound_method:
  "SequenceOfExperiments_name es self = Some (PyBoundMethod ''name'' (pk self))
   \<and> truthy (PyBoundMethod ''name'' (pk self))
   \<and> SequenceOfExperiments_name es self \<noteq> Some (PyStr display)"
  by (simp add: SequenceOfExperiments_name_def)

text \<open>
  C8. The URL that \<^verbatim>\<open>SequenceOfExperiments.start_url\<close> builds holds the id of the row as the
  value of the query parameter, not its code: for the sequence with the id 1 and the code
  \<^verbatim>\<open>abcdefgh\<close> it ends in \<^verbatim>\<open>=1\<close>, and it is the same URL whatever the code is.
\<close>

theorem start_url_embeds_the_id:
  "SequenceOfExperiments_start_url parameter example_sequence
     = ''/InitializeSequence/?'' @ parameter @ ''=1''
   \<and> SequenceOfExperiments.code example_sequence = ''abcdefgh''
   \<and> SequenceOfExperiments_start_url parameter (self\<lparr>SequenceOfExperiments.code := c\<rparr>)
     = SequenceOfExperiments_start_url parameter self"
  by (simp add: SequenceOfExperiments_start_url_def example_sequence_def)

section \<open>Properties of the matches\<close>

text \<open>
  C6. For every match with a treatment, \<^verbatim>\<open>is_full()\<close> returns true if and only if the
  number of the participants of the match is greater than or equal to
  \<^verbatim>\<open>participants_per_match\<close> of the treatment; and whenever the match has participants to
  count, \<^verbatim>\<open>is_full()\<close> returns, with the truth value of that comparison.
\<close>

theorem is_full_iff_capacity_reached:
  assumes "treatment m = Some t"
  shows "(BaseMatch_is_full m = Inr True
            \<longleftrightarrow> (\<exists>rows. participant_set m = Some rows
                  \<and> int (length rows) \<ge> participants_per_match t))
     \<and> (\<forall>rows. participant_set m = Some rows
            \<longrightarrow> BaseMatch_is_full m = Inr (int (length rows) \<ge> participants_per_match t))"
  using assms
  by (auto simp: BaseMatch_is_full_def BaseMatch_participants_def split: option.splits)

theorem is_full_iff_capacity_reached_witness:
  "treatment full_unfinished_match = Some example_treatment
   \<and> participant_set full_unfinished_match = Some [unfinished_participant]
   \<and> participants_per_match example_treatment = 1
   \<and> BaseMatch_is_full full_unfinished_match = Inr True
   \<and> BaseMatch_is_full (full_unfinished_match\<lparr>participant_set := Some []\<rparr>) = Inr False"
proof -
  have t: "treatment full_unfinished_match = Some example_treatment"
    and p: "participant_set full_unfinished_match = Some [unfinished_participant]"
    and c: "participants_per_match example_treatment = 1"
    by (simp_all add: full_unfinished_match_def example_treatment_def)
  have t': "treatment (full_unfinished_match\<lparr>participant_set := Some []\<rparr>) = Some example_treatment"
    and p': "participant_set (full_unfinished_match\<lparr>participant_set := Some []\<rparr>) = Some []"
    by (simp_all add: full_unfinished_match_def)
  have "BaseMatch_is_full full_unfinished_match
      = Inr (int (length [unfinished_participant]) \<ge> participants_per_match example_treatment)"
    using is_full_iff_capacity_reached [OF t] p by blast
  moreover have "BaseMatch_is_full (full_unfinished_match\<lparr>participant_set := Some []\<rparr>)
      = Inr (int (length ([] :: ParticipantInMatch list)) \<ge> participants_per_match example_treatment)"
    using is_full_iff_capacity_reached [OF t'] p' by blast
  ultimately show ?thesis using t p c by simp
qed

text \<open>
  C5. \<^verbatim>\<open>MatchInTwoPersonAsymmetricGame.is_ready_for_next_participant()\<close> never raises; it
  returns \<^verbatim>\<open>True\<close> exactly when participant 1 is set, its \<^verbatim>\<open>is_finished_playing()\<close> is true
  and participant 2 is unset, and in every other case what it returns is false.
\<close>

theorem asymmetric_is_ready_iff:
  "(MatchInTwoPersonAsymmetricGame_is_ready_for_next_participant m = Inr (PyBool True)
      \<longleftrightarrow> (\<exists>p1. participant_1 m = Some p1 \<and> is_finished_playing p1) \<and> participant_2 m = None)
   \<and> ((\<exists>v. MatchInTwoPersonAsymmetricGame_is_ready_for_next_participant m = Inr v \<and> truthy v)
      \<longleftrightarrow> (\<exists>p1. participant_1 m = Some p1 \<and> is_finished_playing p1) \<and> participant_2 m = None)
   \<and> \<not> isl (MatchInTwoPersonAsymmetricGame_is_ready_for_next_participant m)"
  by (auto simp: MatchInTwoPersonAsymmetricGame_is_ready_for_next_participant_def
      split: option.splits)

text \<open>
  C1. On the full match whose only participant has not finished, \<^verbatim>\<open>is_finished()\<close> returns
  the list \<^verbatim>\<open>[False]\<close>: a non-empty list, which is true, so the match counts as finished.
\<close>

theorem is_finished_of_full_unfinished_match:
  "BaseMatch_is_full full_unfinished_match = Inr True
   \<and> BaseMatch_participants full_unfinished_match = Inr [unfinished_participant]
   \<and> is_finished unfinished_participant = False
   \<and> BaseMatch_is_finished full_unfinished_match = Inr (PyList [PyBool False])
   \<and> truthy (PyList [PyBool False])"
  by (simp add: BaseMatch_is_finished_def BaseMatch_is_full_def BaseMatch_participants_def
      full_unfinished_match_def unfinished_participant_def example_treatment_def)

text \<open>
  C9, as stated, fails on a match without a treatment, which a \<^verbatim>\<open>MatchOffer\<close> is as the
  source declares the class: \<^verbatim>\<open>is_full()\<close> and \<^verbatim>\<open>is_finished()\<close> raise \<^verbatim>\<open>AttributeError\<close>
  there, a second failure mode of the lifecycle predicates.
\<close>

theorem lifecycle_attribute_error_counterexample:
  "MatchOffer_is_ready_for_next_participant example_offer = Inl NotImplementedError
   \<and> BaseMatch_is_full example_offer = Inl AttributeError
   \<and> BaseMatch_is_finished example_offer = Inl AttributeError"
  by (simp add: MatchOffer_is_ready_for_next_participant_def
      BaseMatch_is_ready_for_next_participant_def BaseMatch_is_finished_def BaseMatch_is_full_def
      BaseMatch_participants_def example_offer_def)

text \<open>
  C9, amended. Where the class of a match does not override it (for \<^verbatim>\<open>MatchOffer\<close>, say),
  \<^verbatim>\<open>is_ready_for_next_participant()\<close> raises \<^verbatim>\<open>NotImplementedError\<close>. On a match that has a
  treatment and participants this is the only failure mode of the lifecycle predicates:
  \<^verbatim>\<open>is_full()\<close> and \<^verbatim>\<open>is_finished()\<close> raise exactly on a match that lacks one of the two,
  and what they raise there is \<^verbatim>\<open>AttributeError\<close>.
\<close>

theorem lifecycle_failure_modes:
  "BaseMatch_is_ready_for_next_participant m = Inl NotImplementedError
   \<and> MatchOffer_is_ready_for_next_participant offer = Inl NotImplementedError
   \<and> (BaseMatch_is_full m = Inl e
        \<longleftrightarrow> e = AttributeError \<and> (treatment m = None \<or> participant_set m = None))
   \<and> (BaseMatch_is_finished m = Inl e
        \<longleftrightarrow> e = AttributeError \<and> (treatment m = None \<or> participant_set m = None))"
  by (auto simp: BaseMatch_is_ready_for_next_participant_def
      MatchOffer_is_ready_for_next_participant_def BaseMatch_is_finished_def BaseMatch_is_full_def
      BaseMatch_participants_def split: option.splits)

theorem lifecycle_failure_modes_witness:
  "BaseMatch_is_ready_for_next_participant full_unfinished_match = Inl NotImplementedError
   \<and> treatment full_unfinished_match \<noteq> None
   \<and> participant_set full_unfinished_match \<noteq> None
   \<and> \<not> isl (BaseMatch_is_full full_unfinished_match)
   \<and> \<not> isl (BaseMatch_is_finished full_unfinished_match)"
proof -
  have t: "treatment full_unfinished_match \<noteq> None"
    and p: "participant_set full_unfinished_match \<noteq> None"
    by (simp_all add: full_unfinished_match_def)
  have "BaseMatch_is_full full_unfinished_match \<noteq> Inl e"
    and "BaseMatch_is_finished full_unfinished_match \<noteq> Inl e" for e
    using lifecycle_failure_modes [of full_unfinished_match example_offer e] t p by simp_all
  then have "\<not> isl (BaseMatch_is_full full_unfinished_match)"
    and "\<not> isl (BaseMatch_is_finished full_unfinished_match)"
    by (auto simp: isl_def)
  then show ?thesis
    using lifecycle_failure_modes [of full_unfinished_match example_offer NotImplementedError] t p
    by simp
qed

subsection \<open>next_open_match\<close>

lemma filter_condition_open:
  assumes "session request treatment_code = Some c"
  shows "filter_condition is_ready treatment_code request m = Inr True \<longleftrightarrow> is_open is_ready c m"
  using assms by (auto simp: filter_condition_def is_open_def split: option.splits sum.splits)

lemma next_open_match_filter:
  assumes "session request treatment_code = Some c"
    and "\<forall>m \<in> set (takeWhile (\<lambda>m. \<not> is_open is_ready c m) matches).
           \<not> isl (filter_condition is_ready treatment_code request m)"
  shows "next_open_match is_ready treatment_code matches request
       = (case filter (is_open is_ready c) matches of
            [] \<Rightarrow> Inl StopIteration
          | m # ms \<Rightarrow> Inr m)"
  using assms(2)
proof (induction matches)
  case Nil
  then show ?case by simp
next
  case (Cons m matches)
  show ?case
  proof (cases "is_open is_ready c m")
    case True
    then have "filter_condition is_ready treatment_code request m = Inr True"
      by (simp add: filter_condition_open [OF assms(1)])
    with True show ?thesis by simp
  next
    case False
    with Cons.prems have returns: "\<not> isl (filter_condition is_ready treatment_code request m)"
      and rest: "\<forall>m \<in> set (takeWhile (\<lambda>m. \<not> is_open is_ready c m) matches).
           \<not> isl (filter_condition is_ready treatment_code request m)"
      by simp_all
    from False have "filter_condition is_ready treatment_code request m \<noteq> Inr True"
      by (simp add: filter_condition_open [OF assms(1)])
    with returns have "filter_condition is_ready treatment_code request m = Inr False"
      by (cases "filter_condition is_ready treatment_code request m") auto
    with False Cons.IH [OF rest] show ?thesis by simp
  qed
qed

text \<open>
  C2, as stated, fails where the condition of the generator raises. With a stored match
  that is open for the code \<^verbatim>\<open>T\<close> and a request whose session holds no treatment code,
  \<^verbatim>\<open>next_open_match\<close> raises \<^verbatim>\<open>KeyError\<close>; with a session that holds the code and a stored
  \<^verbatim>\<open>MatchOffer\<close>, which has no treatment, it raises \<^verbatim>\<open>AttributeError\<close>. In neither case does
  it return a match or raise \<^verbatim>\<open>StopIteration\<close>.
\<close>

theorem next_open_match_raises_counterexample:
  "session new_request ''treatment_code'' = None
   \<and> is_open MatchInTwoPersonAsymmetricGame_is_ready_for_next_participant ''T'' open_match
   \<and> next_open_match MatchInTwoPersonAsymmetricGame_is_ready_for_next_participant
        ''treatment_code'' [open_match] new_request = Inl KeyError
   \<and> session example_request ''treatment_code'' = Some ''T''
   \<and> treatment example_offer = None
   \<and> filter (is_open MatchOffer_is_ready_for_next_participant ''T'') [example_offer] = []
   \<and> next_open_match MatchOffer_is_ready_for_next_participant ''treatment_code'' [example_offer]
        example_request = Inl AttributeError"
  by (simp add: is_open_def filter_condition_def
      MatchInTwoPersonAsymmetricGame_is_ready_for_next_participant_def
      new_request_def example_request_def example_offer_def open_match_def
      finished_participant_def example_treatment_def)

text \<open>
  C2, amended. Let the session of the request hold a treatment code, unless no match is
  stored; and let the condition of the generator raise on no stored match in front of the
  first one that is open, that is, let each of these matches have a treatment and, when
  that has the session's code, return from \<^verbatim>\<open>is_ready_for_next_participant()\<close>. Then
  \<^verbatim>\<open>next_open_match\<close> returns the first stored match whose treatment code equals the code
  stored in the session and for which \<^verbatim>\<open>is_ready_for_next_participant()\<close> is true, and it
  raises \<^verbatim>\<open>StopIteration\<close> if and only if no stored match satisfies both conditions.
\<close>

theorem next_open_match_first_open:
  assumes "matches \<noteq> [] \<longrightarrow> session request treatment_code = Some c"
    and "\<forall>m \<in> set (takeWhile (\<lambda>m. \<not> is_open is_ready c m) matches).
           \<not> isl (filter_condition is_ready treatment_code request m)"
  shows "next_open_match is_ready treatment_code matches request
       = (case filter (is_open is_ready c) matches of
            [] \<Rightarrow> Inl StopIteration
          | m # ms \<Rightarrow> Inr m)
     \<and> (next_open_match is_ready treatment_code matches request = Inl StopIteration
          \<longleftrightarrow> \<not> (\<exists>m \<in> set matches. is_open is_ready c m))"
proof -
  have first: "next_open_match is_ready treatment_code matches request
       = (case filter (is_open is_ready c) matches of
            [] \<Rightarrow> Inl StopIteration
          | m # ms \<Rightarrow> Inr m)"
  proof (cases matches)
    case Nil
    then show ?thesis by simp
  next
    case (Cons m ms)
    with assms(1) have "session request treatment_code = Some c" by simp
    then show ?thesis using assms(2) by (rule next_open_match_filter)
  qed
  have "filter (is_open is_ready c) matches = [] \<longleftrightarrow> \<not> (\<exists>m \<in> set matches. is_open is_ready c m)"
    by (simp add: filter_empty_conv)
  with first show ?thesis by (simp split: list.splits)
qed

theorem next_open_match_first_open_witness:
  "session example_request ''treatment_code'' = Some ''T''
   \<and> \<not> is_open MatchInTwoPersonAsymmetricGame_is_ready_for_next_participant ''T'' waiting_match
   \<and> \<not> isl (filter_condition MatchInTwoPersonAsymmetricGame_is_ready_for_next_participant
          ''treatment_code'' example_request waiting_match)
   \<and> is_open MatchInTwoPersonAsymmetricGame_is_ready_for_next_participant ''T'' open_match
   \<and> isl (filter_condition MatchInTwoPersonAsymmetricGame_is_ready_for_next_participant
          ''treatment_code'' example_request bare_match)
   \<and> next_open_match MatchInTwoPersonAsymmetricGame_is_ready_for_next_participant
        ''treatment_code'' [waiting_match, open_match, bare_match] example_request
      = Inr open_match"
proof -
  let ?is_ready = "MatchInTwoPersonAsymmetricGame_is_ready_for_next_participant ::
    MatchInTwoPersonAsymmetricGame \<Rightarrow> error + pyval"
  have s: "session example_request ''treatment_code'' = Some ''T''"
    by (simp add: example_request_def)
  have w: "\<not> is_open ?is_ready ''T'' waiting_match"
    and wc: "\<not> isl (filter_condition ?is_ready ''treatment_code'' example_request waiting_match)"
    and opn: "is_open ?is_ready ''T'' open_match"
    and u: "\<not> is_open ?is_ready ''T'' bare_match"
    and uc: "isl (filter_condition ?is_ready ''treatment_code'' example_request bare_match)"
    by (simp_all add: is_open_def filter_condition_def
        MatchInTwoPersonAsymmetricGame_is_ready_for_next_participant_def example_request_def
        waiting_match_def open_match_def bare_match_def unfinished_participant_def
        finished_participant_def example_treatment_def)
  have h1: "[waiting_match, open_match, bare_match] \<noteq> [] \<longrightarrow>
      session example_request ''treatment_code'' = Some ''T''"
    using s by simp
  have h2: "\<forall>m \<in> set (takeWhile (\<lambda>m. \<not> is_open ?is_ready ''T'' m)
        [waiting_match, open_match, bare_match]).
      \<not> isl (filter_condition ?is_ready ''treatment_code'' example_request m)"
    using w wc opn by simp
  have f: "filter (is_open ?is_ready ''T'') [waiting_match, open_match, bare_match] = [open_match]"
    using w opn u by simp
  have "next_open_match ?is_ready ''treatment_code'' [waiting_match, open_match, bare_match]
        example_request
      = (case [open_match] of [] \<Rightarrow> Inl StopIteration | m # ms \<Rightarrow> Inr m)"
    using next_open_match_first_open [OF h1 h2, THEN conjunct1] unfolding f .
  then have "next_open_match ?is_ready ''treatment_code'' [waiting_match, open_match, bare_match]
        example_request = Inr open_match"
    by simp
  with s w wc opn uc show ?thesis by blast
qed

end
